theory Spec2Isabelle
  imports Complex_Main "HOL-Library.Word"
begin

section \<open>JavaScript values used by the poetry client\<close>

text \<open>
  A JavaScript string is a sequence of 16-bit code units. The string literals of the
  source are ASCII, so each of them is written as a HOL string and converted unit by
  unit with \<open>lit\<close>.
\<close>

type_synonym code_unit = "16 word"

type_synonym js_string = "code_unit list"

definition lit :: "string \<Rightarrow> js_string" where
  "lit s = map (\<lambda>c. of_nat (of_char c)) s"

text \<open>
  A JavaScript number is a double: a finite value (a rational; the two zeros are equal
  under \<open>===\<close> and print alike, so one zero stands for both), \<open>NaN\<close>, or one of the
  infinities.
\<close>

datatype js_number = Num rat | NaN | PosInfinity | NegInfinity

text \<open>The decimal numeral of a natural number, most significant digit first.\<close>

fun nat_to_dec :: "nat \<Rightarrow> js_string" where
  "nat_to_dec n =
     (if n < 10 then [of_nat (48 + n)]
      else nat_to_dec (n div 10) @ [of_nat (48 + n mod 10)])"

declare nat_to_dec.simps [simp del]

text \<open>
  \<open>ToString\<close> applied to a number, as a template literal does. An integral value of
  magnitude below \<open>2 ^ 53\<close> prints as its decimal numeral. Every other finite value
  prints by the shortest-round-trip digit algorithm of the language, which is not
  modelled: it is the parameter \<open>fmt\<close>.
\<close>

definition Number_toString :: "(rat \<Rightarrow> js_string) \<Rightarrow> js_number \<Rightarrow> js_string" where
  "Number_toString fmt x =
     (case x of
        NaN \<Rightarrow> lit ''NaN''
      | PosInfinity \<Rightarrow> lit ''Infinity''
      | NegInfinity \<Rightarrow> lit ''-Infinity''
      | Num r \<Rightarrow>
          (if of_int \<lfloor>r\<rfloor> = r \<and> \<bar>r\<bar> < 2 ^ 53
           then (if r < 0 then lit ''-'' @ nat_to_dec (nat \<lfloor>- r\<rfloor>)
                 else nat_to_dec (nat \<lfloor>r\<rfloor>))
           else fmt r))"

text \<open>A statement either completes normally with a value or throws an \<open>Error\<close>.\<close>

datatype js_error = Error (message: js_string)

datatype 'a completion = Normal 'a | Throw js_error

section \<open>errorHandler.js\<close>

text \<open>
  \<open>handleHttpErrors\<close>: a \<open>switch\<close> on the status, comparing with \<open>===\<close>; every case and
  the default throw.
\<close>

definition handleHttpErrors :: "(rat \<Rightarrow> js_string) \<Rightarrow> js_number \<Rightarrow> unit completion" where
  "handleHttpErrors fmt status =
     (if status = Num 400 then
        Throw (Error (lit ''Bad Request: Please check the information you provided.''))
      else if status = Num 401 then
        Throw (Error (lit ''Unauthorized: Please log in and try again.''))
      else if status = Num 403 then
        Throw (Error (lit ''Forbidden: You do not have permission to access this resource.''))
      else if status = Num 404 then
        Throw (Error (lit ''Not Found: No matching results were found. Please try a different search.''))
      else if status = Num 429 then
        Throw (Error (lit ''Too Many Requests: Please wait a moment before trying again.''))
      else if status = Num 500 then
        Throw (Error (lit ''Internal Server Error: Something went wrong on our end. Please try again later.''))
      else if status = Num 502 then
        Throw (Error (lit ''Bad Gateway: The server received an invalid response. Please try again later.''))
      else if status = Num 503 then
        Throw (Error (lit ''Service Unavailable: The server is currently unavailable. Please try again later.''))
      else if status = Num 504 then
        Throw (Error (lit ''Gateway Timeout: The server took too long to respond. Please try again later.''))
      else
        Throw (Error (lit ''Unexpected error: '' @ Number_toString fmt status)))"

section \<open>script.js\<close>

definition BASE_URL :: js_string where
  "BASE_URL = lit ''https://poetrydb.org''"

text \<open>
  The character classes of the two regular expressions. \<open>\s\<close> is the white space and
  the line terminators of the language.
\<close>

definition is_lower :: "code_unit \<Rightarrow> bool" where
  "is_lower c = (0x61 \<le> c \<and> c \<le> 0x7A)"

definition is_upper :: "code_unit \<Rightarrow> bool" where
  "is_upper c = (0x41 \<le> c \<and> c \<le> 0x5A)"

definition is_digit :: "code_unit \<Rightarrow> bool" where
  "is_digit c = (0x30 \<le> c \<and> c \<le> 0x39)"

definition is_space :: "code_unit \<Rightarrow> bool" where
  "is_space c =
     (c = 0x09 \<or> c = 0x0A \<or> c = 0x0B \<or> c = 0x0C \<or> c = 0x0D \<or> c = 0x20 \<or> c = 0xA0
      \<or> c = 0x1680 \<or> (0x2000 \<le> c \<and> c \<le> 0x200A) \<or> c = 0x2028 \<or> c = 0x2029
      \<or> c = 0x202F \<or> c = 0x205F \<or> c = 0x3000 \<or> c = 0xFEFF)"

text \<open>\<open>/[^a-zA-Z\s]/\<close> and \<open>/[^a-zA-Z0-9\s]/\<close>: one code unit outside the class.\<close>

definition invalidAuthorPattern :: "code_unit \<Rightarrow> bool" where
  "invalidAuthorPattern c = (\<not> (is_lower c \<or> is_upper c \<or> is_space c))"

definition invalidTitlePattern :: "code_unit \<Rightarrow> bool" where
  "invalidTitlePattern c = (\<not> (is_lower c \<or> is_upper c \<or> is_digit c \<or> is_space c))"

text \<open>
  \<open>pattern.test(s)\<close> for a pattern that is a single character class and has no flags:
  some code unit of \<open>s\<close> matches.
\<close>

definition test :: "(code_unit \<Rightarrow> bool) \<Rightarrow> js_string \<Rightarrow> bool" where
  "test pattern s = list_ex pattern s"

text \<open>
  \<open>validateInput\<close>: \<open>None\<close> is \<open>null\<close>. A string is falsy exactly when it is empty.
\<close>

definition validateInput :: "js_string \<Rightarrow> js_string \<Rightarrow> js_string option" where
  "validateInput author title =
     (if author = [] \<and> title = [] then
        Some (lit ''Please enter either an author name, title, or both.'')
      else if author \<noteq> [] \<and> test invalidAuthorPattern author then
        Some (lit ''Please enter a valid author name with letters and spaces only.'')
      else if title \<noteq> [] \<and> test invalidTitlePattern title then
        Some (lit ''Please enter a valid title with letters, numbers, and spaces only.'')
      else None)"

text \<open>
  \<open>createPoetryUrl\<close>: \<open>None\<close> is the \<open>undefined\<close> of the path that falls off the end of
  the function.
\<close>

definition createPoetryUrl :: "js_string \<Rightarrow> js_string \<Rightarrow> js_string option" where
  "createPoetryUrl author title =
     (if author \<noteq> [] \<and> title \<noteq> [] then
        Some (BASE_URL @ lit ''/author,title/'' @ author @ lit '';'' @ title)
      else if author \<noteq> [] then
        Some (BASE_URL @ lit ''/author/'' @ author)
      else if title \<noteq> [] then
        Some (BASE_URL @ lit ''/title/'' @ title)
      else None)"

text \<open>\<open>String.prototype.trim\<close>: white space and line terminators leave both ends.\<close>

definition trim :: "js_string \<Rightarrow> js_string" where
  "trim s = rev (dropWhile is_space (rev (dropWhile is_space s)))"

text \<open>
  \<open>fetchPoetry\<close> up to the request: the two input fields are trimmed and validated; a
  truthy validation result is shown and the function returns, otherwise the URL is
  built and handed to \<open>fetch\<close>.
\<close>

datatype fetch_start = ShowError js_string | Fetch "js_string option"

definition fetchPoetry :: "js_string \<Rightarrow> js_string \<Rightarrow> fetch_start" where
  "fetchPoetry authorInput titleInput =
     (let author = trim authorInput;
          title = trim titleInput;
          validationError = validateInput author title
      in if validationError \<noteq> None \<and> validationError \<noteq> Some [] then
           ShowError (the validationError)
         else Fetch (createPoetryUrl author title))"

section \<open>Elevator simulation\<close>

text \<open>
  The README describes a Python elevator simulation (its functions \<open>call_elevator\<close> and
  \<open>process_requests\<close>); that file is not among the sources. The definitions of this
  section follow sections 3 and 4 of the specification instead.
\<close>

text \<open>Modelled from the spec: the direction of a request (section 3), whose source is missing.\<close>

datatype direction = UP | DOWN

text \<open>
  Modelled from the spec: the states of the elevator (section 4.2, "states = IDLE,
  MOVING_UP, MOVING_DOWN"), whose source is missing.
\<close>

datatype motion = IDLE | MOVING_UP | MOVING_DOWN

text \<open>Modelled from the spec: a request is a (floor, direction) pair; its source is missing.\<close>

type_synonym request = "int \<times> direction"

text \<open>
  Modelled from the spec: the request queue builder of section 4.1, whose source is
  missing. The requests are partitioned by direction and deduplicated by floor; the
  up-queue is sorted ascending and the down-queue descending.
\<close>

definition build_queues :: "request list \<Rightarrow> int list \<times> int list" where
  "build_queues requests =
     (sort (remdups (map fst (filter (\<lambda>r. snd r = UP) requests))),
      rev (sort (remdups (map fst (filter (\<lambda>r. snd r = DOWN) requests)))))"

text \<open>
  Modelled from the spec: the elevator state and the two queues of section 3, whose
  source is missing, with the sequence of floors serviced so far.
\<close>

record sim =
  currentFloor :: int
  currentDirection :: motion
  upQueue :: "int list"
  downQueue :: "int list"
  serviced :: "int list"

text \<open>
  Modelled from the spec: the initial state of section 4.2, \<open>IDLE\<close> at the starting
  floor with the queues as built; its source is missing.
\<close>

definition initial :: "int \<Rightarrow> int list \<times> int list \<Rightarrow> sim" where
  "initial start queues =
     \<lparr>currentFloor = start, currentDirection = IDLE, upQueue = fst queues,
      downQueue = snd queues, serviced = []\<rparr>"

text \<open>
  Modelled from the spec: "the nearest pending floor in that queue that is reachable
  without reversing direction" (section 4.2, rule 1), whose source is missing. Going up
  the floors at or above the current one are reachable and the lowest is nearest.
\<close>

definition nearest_up :: "int \<Rightarrow> int list \<Rightarrow> int option" where
  "nearest_up cur queue =
     (case filter (\<lambda>f. cur \<le> f) queue of [] \<Rightarrow> None | f # fs \<Rightarrow> Some (fold min fs f))"

text \<open>
  Modelled from the spec: the same rule going down (section 4.2, rule 1), whose source
  is missing: the highest queued floor at or below the current one.
\<close>

definition nearest_down :: "int \<Rightarrow> int list \<Rightarrow> int option" where
  "nearest_down cur queue =
     (case filter (\<lambda>f. f \<le> cur) queue of [] \<Rightarrow> None | f # fs \<Rightarrow> Some (fold max fs f))"

text \<open>
  Modelled from the spec: the next target taken from the up-queue (section 4.2), whose
  source is missing. It is the nearest reachable floor of rule 1 while there is one. The
  specification also has the queue scanned until it is exhausted, the queues fully
  drained (section 3) and the run end with both queues empty, and its motion generator
  (section 4.3) moves the elevator toward whatever target the scheduler picks; so when
  the queue holds only floors behind the elevator, the nearest of them is the target.
\<close>

definition target_up :: "int \<Rightarrow> int list \<Rightarrow> int option" where
  "target_up cur queue =
     (case nearest_up cur queue of
        Some f \<Rightarrow> Some f
      | None \<Rightarrow> (case queue of [] \<Rightarrow> None | f # fs \<Rightarrow> Some (fold max fs f)))"

text \<open>
  Modelled from the spec: the next target taken from the down-queue (section 4.2),
  whose source is missing: the nearest reachable floor while there is one, and
  otherwise the nearest of the floors behind the elevator, which lie above it.
\<close>

definition target_down :: "int \<Rightarrow> int list \<Rightarrow> int option" where
  "target_down cur queue =
     (case nearest_down cur queue of
        Some f \<Rightarrow> Some f
      | None \<Rightarrow> (case queue of [] \<Rightarrow> None | f # fs \<Rightarrow> Some (fold min fs f)))"

text \<open>
  Modelled from the spec: servicing a floor (section 3, "servicing a floor removes it
  from its queue before advancing"), whose source is missing. The elevator is at the
  floor, the floor leaves the queue it was taken from and joins the serviced sequence.
\<close>

definition service_up :: "int \<Rightarrow> sim \<Rightarrow> sim" where
  "service_up f s =
     s\<lparr>currentFloor := f, upQueue := remove1 f (upQueue s), serviced := serviced s @ [f]\<rparr>"

text \<open>
  Modelled from the spec: servicing a floor of the down-queue (section 3), whose source
  is missing.
\<close>

definition service_down :: "int \<Rightarrow> sim \<Rightarrow> sim" where
  "service_down f s =
     s\<lparr>currentFloor := f, downQueue := remove1 f (downQueue s), serviced := serviced s @ [f]\<rparr>"

text \<open>
  Modelled from the spec: the tie-break of section 4.2, rule 3, whose source is missing.
  The current floor is serviced once and leaves both queues.
\<close>

definition service_here :: "sim \<Rightarrow> sim" where
  "service_here s =
     s\<lparr>upQueue := remove1 (currentFloor s) (upQueue s),
       downQueue := remove1 (currentFloor s) (downQueue s),
       serviced := serviced s @ [currentFloor s]\<rparr>"

text \<open>
  Modelled from the spec: what one scheduling decision yields (section 4.2), whose
  source is missing: a next state, or the halt in the terminal state.
\<close>

datatype step_result = Next sim | Halt

text \<open>
  Modelled from the spec: one transition of the scheduler of section 4.2, whose source
  is missing.
  \<^item> Rule 3 comes first: a floor equal to the current floor in both queues is serviced
    whatever the direction.
  \<^item> Rule 1: moving, with the queue of the current direction non-empty, the next target
    of that queue is serviced and the direction is kept.
  \<^item> Rule 2: with that queue exhausted, the elevator reverses if the opposite queue is
    non-empty and goes idle otherwise.
  \<^item> Idle, the elevator halts when both queues are empty (the terminal state). With
    requests pending it starts upwards if the up-queue is non-empty, as the example of
    section 8 does, and downwards otherwise.
\<close>

definition step :: "sim \<Rightarrow> step_result" where
  "step s =
     (if currentFloor s \<in> set (upQueue s) \<and> currentFloor s \<in> set (downQueue s) then
        Next (service_here s)
      else case currentDirection s of
        IDLE \<Rightarrow>
          (if upQueue s \<noteq> [] then Next (s\<lparr>currentDirection := MOVING_UP\<rparr>)
           else if downQueue s \<noteq> [] then Next (s\<lparr>currentDirection := MOVING_DOWN\<rparr>)
           else Halt)
      | MOVING_UP \<Rightarrow>
          (case target_up (currentFloor s) (upQueue s) of
             Some f \<Rightarrow> Next (service_up f s)
           | None \<Rightarrow>
               (if downQueue s \<noteq> [] then Next (s\<lparr>currentDirection := MOVING_DOWN\<rparr>)
                else Next (s\<lparr>currentDirection := IDLE\<rparr>)))
      | MOVING_DOWN \<Rightarrow>
          (case target_down (currentFloor s) (downQueue s) of
             Some f \<Rightarrow> Next (service_down f s)
           | None \<Rightarrow>
               (if upQueue s \<noteq> [] then Next (s\<lparr>currentDirection := MOVING_UP\<rparr>)
                else Next (s\<lparr>currentDirection := IDLE\<rparr>))))"

text \<open>
  The measure that makes the simulation loop terminate: twice the number of pending
  floors, plus one while a change of direction is still due.
\<close>

definition rank :: "sim \<Rightarrow> nat" where
  "rank s =
     (case currentDirection s of
        IDLE \<Rightarrow> (if upQueue s = [] \<and> downQueue s = [] then 0 else 1)
      | MOVING_UP \<Rightarrow> (if upQueue s \<noteq> [] then 0 else 1)
      | MOVING_DOWN \<Rightarrow> (if upQueue s = [] \<and> downQueue s \<noteq> [] then 0 else 1))"

definition pending :: "sim \<Rightarrow> nat" where
  "pending s = 2 * (length (upQueue s) + length (downQueue s)) + rank s"

lemma fold_min_Min: "fold min fs (f :: int) = Min (set (f # fs))"
  by (simp only: Min.set_eq_fold)

lemma fold_max_Max: "fold max fs (f :: int) = Max (set (f # fs))"
  by (simp only: Max.set_eq_fold)

lemma fold_min_in: "fold min fs (f :: int) \<in> set (f # fs)"
  unfolding fold_min_Min by (rule Min_in) simp_all

lemma fold_max_in: "fold max fs (f :: int) \<in> set (f # fs)"
  unfolding fold_max_Max by (rule Max_in) simp_all

lemma fold_min_le: "g \<in> set (f # fs) \<Longrightarrow> fold min fs (f :: int) \<le> g"
  unfolding fold_min_Min by (rule Min_le) simp_all

lemma fold_max_ge: "g \<in> set (f # fs) \<Longrightarrow> g \<le> fold max fs (f :: int)"
  unfolding fold_max_Max by (rule Max_ge) simp_all

lemma nearest_up_Some:
  assumes "nearest_up cur q = Some f"
  shows "f \<in> set q \<and> cur \<le> f \<and> (\<forall>g\<in>set q. cur \<le> g \<longrightarrow> f \<le> g)"
proof -
  from assms obtain g gs where g: "filter (\<lambda>f. cur \<le> f) q = g # gs" and f: "f = fold min gs g"
    by (auto simp: nearest_up_def split: list.splits)
  have "f \<in> set (filter (\<lambda>f. cur \<le> f) q)"
    unfolding g f by (rule fold_min_in)
  moreover have "f \<le> h" if "h \<in> set q" "cur \<le> h" for h
  proof -
    from that have "h \<in> set (g # gs)" unfolding g [symmetric] by simp
    then show ?thesis unfolding f by (rule fold_min_le)
  qed
  ultimately show ?thesis by simp
qed

lemma nearest_down_Some:
  assumes "nearest_down cur q = Some f"
  shows "f \<in> set q \<and> f \<le> cur \<and> (\<forall>g\<in>set q. g \<le> cur \<longrightarrow> g \<le> f)"
proof -
  from assms obtain g gs where g: "filter (\<lambda>f. f \<le> cur) q = g # gs" and f: "f = fold max gs g"
    by (auto simp: nearest_down_def split: list.splits)
  have "f \<in> set (filter (\<lambda>f. f \<le> cur) q)"
    unfolding g f by (rule fold_max_in)
  moreover have "h \<le> f" if "h \<in> set q" "h \<le> cur" for h
  proof -
    from that have "h \<in> set (g # gs)" unfolding g [symmetric] by simp
    then show ?thesis unfolding f by (rule fold_max_ge)
  qed
  ultimately show ?thesis by simp
qed

lemma nearest_up_None: "nearest_up cur q = None \<longleftrightarrow> (\<forall>g\<in>set q. g < cur)"
proof -
  have "nearest_up cur q = None \<longleftrightarrow> filter (\<lambda>f. cur \<le> f) q = []"
    by (simp add: nearest_up_def split: list.splits)
  then show ?thesis by (auto simp: filter_empty_conv not_le)
qed

lemma nearest_down_None: "nearest_down cur q = None \<longleftrightarrow> (\<forall>g\<in>set q. cur < g)"
proof -
  have "nearest_down cur q = None \<longleftrightarrow> filter (\<lambda>f. f \<le> cur) q = []"
    by (simp add: nearest_down_def split: list.splits)
  then show ?thesis by (auto simp: filter_empty_conv not_le)
qed

lemma target_up_None: "target_up cur q = None \<longleftrightarrow> q = []"
  by (auto simp: target_up_def nearest_up_def split: option.splits list.splits)

lemma target_down_None: "target_down cur q = None \<longleftrightarrow> q = []"
  by (auto simp: target_down_def nearest_down_def split: option.splits list.splits)

lemma target_up_in: "target_up cur q = Some f \<Longrightarrow> f \<in> set q"
  using fold_max_in nearest_up_Some
  by (fastforce simp: target_up_def split: option.splits list.splits)

lemma target_down_in: "target_down cur q = Some f \<Longrightarrow> f \<in> set q"
  using fold_min_in nearest_down_Some
  by (fastforce simp: target_down_def split: option.splits list.splits)


lemma rank_le: "rank s \<le> 1"
  by (simp add: rank_def split: motion.split)

lemma fewer_pending:
  "length (upQueue s') + length (downQueue s') < length (upQueue s) + length (downQueue s)
   \<Longrightarrow> pending s' < pending s"
  using rank_le [of s'] by (simp add: pending_def)

lemma length_remove1_less: "x \<in> set xs \<Longrightarrow> length (remove1 x xs) < length xs"
  by (induction xs) auto

text \<open>
  The transitions of \<open>step\<close>, one case for each.
\<close>

lemma step_cases [consumes 1, case_names here start_up start_down up reverse_down idle_from_up
    down reverse_up idle_from_down]:
  assumes "step s = Next s'"
  obtains
    "currentFloor s \<in> set (upQueue s)" "currentFloor s \<in> set (downQueue s)"
      "s' = service_here s"
  | "currentDirection s = IDLE" "upQueue s \<noteq> []" "s' = s\<lparr>currentDirection := MOVING_UP\<rparr>"
  | "currentDirection s = IDLE" "upQueue s = []" "downQueue s \<noteq> []"
      "s' = s\<lparr>currentDirection := MOVING_DOWN\<rparr>"
  | f where "currentDirection s = MOVING_UP" "target_up (currentFloor s) (upQueue s) = Some f"
      "s' = service_up f s"
  | "currentDirection s = MOVING_UP" "upQueue s = []" "downQueue s \<noteq> []"
      "s' = s\<lparr>currentDirection := MOVING_DOWN\<rparr>"
  | "currentDirection s = MOVING_UP" "upQueue s = []" "downQueue s = []"
      "s' = s\<lparr>currentDirection := IDLE\<rparr>"
  | f where "currentDirection s = MOVING_DOWN"
      "target_down (currentFloor s) (downQueue s) = Some f" "s' = service_down f s"
  | "currentDirection s = MOVING_DOWN" "downQueue s = []" "upQueue s \<noteq> []"
      "s' = s\<lparr>currentDirection := MOVING_UP\<rparr>"
  | "currentDirection s = MOVING_DOWN" "upQueue s = []" "downQueue s = []"
      "s' = s\<lparr>currentDirection := IDLE\<rparr>"
proof (cases "currentFloor s \<in> set (upQueue s) \<and> currentFloor s \<in> set (downQueue s)")
  case True
  with assms that(1) show ?thesis by (simp add: step_def)
next
  case tie: False
  show ?thesis
  proof (cases "currentDirection s")
    case IDLE
    with assms tie that(2,3) show ?thesis
      by (cases "upQueue s = []"; cases "downQueue s = []") (simp_all add: step_def)
  next
    case MOVING_UP
    show ?thesis
    proof (cases "target_up (currentFloor s) (upQueue s)")
      case (Some f)
      with assms tie MOVING_UP that(4) show ?thesis by (simp add: step_def)
    next
      case None
      then have "upQueue s = []" by (simp add: target_up_None)
      with assms tie MOVING_UP None that(5,6) show ?thesis
        by (cases "downQueue s = []") (simp_all add: step_def)
    qed
  next
    case MOVING_DOWN
    show ?thesis
    proof (cases "target_down (currentFloor s) (downQueue s)")
      case (Some f)
      with assms tie MOVING_DOWN that(7) show ?thesis by (simp add: step_def)
    next
      case None
      then have "downQueue s = []" by (simp add: target_down_None)
      with assms tie MOVING_DOWN None that(8,9) show ?thesis
        by (cases "upQueue s = []") (simp_all add: step_def)
    qed
  qed
qed

lemma step_pending: "step s = Next s' \<Longrightarrow> pending s' < pending s"
proof (induction rule: step_cases)
  case here
  then have "length (remove1 (currentFloor s) (upQueue s)) < length (upQueue s)"
    and "length (remove1 (currentFloor s) (downQueue s)) < length (downQueue s)"
    by (simp_all add: length_remove1_less)
  with here show ?case
    by (intro fewer_pending) (simp add: service_here_def add_strict_mono)
next
  case (up f)
  then have "length (remove1 f (upQueue s)) < length (upQueue s)"
    by (simp add: length_remove1_less target_up_in)
  with up show ?case
    by (intro fewer_pending) (simp add: service_up_def)
next
  case (down f)
  then have "length (remove1 f (downQueue s)) < length (downQueue s)"
    by (simp add: length_remove1_less target_down_in)
  with down show ?case
    by (intro fewer_pending) (simp add: service_down_def)
qed (simp_all add: pending_def rank_def)

text \<open>
  Modelled from the spec: how a run ends (section 4.2), whose source is missing: in the
  terminal state.
\<close>

datatype run_result = Finished sim

text \<open>
  Modelled from the spec: the simulation loop of section 4.2, whose source is missing.
  Transitions are taken until the scheduler halts.
\<close>

function run :: "sim \<Rightarrow> run_result" where
  "run s = (case step s of Next s' \<Rightarrow> run s' | Halt \<Rightarrow> Finished s)"
  by pat_completeness auto
termination
  by (relation "measure pending") (auto simp: step_pending)

declare run.simps [simp del]

text \<open>
  Modelled from the spec: a simulation run (section 2), whose source is missing: the
  queues are built from the batch and the loop starts idle at the starting floor.
\<close>

definition schedule :: "int \<Rightarrow> request list \<Rightarrow> run_result" where
  "schedule start requests = run (initial start (build_queues requests))"

section \<open>Properties of the poetry client\<close>

lemma test_iff: "test p s \<longleftrightarrow> (\<exists>c\<in>set s. p c)"
  by (simp add: test_def list_ex_iff)

lemma lit_simps: "lit [] = []" "lit (c # cs) = of_nat (of_char c) # lit cs"
  by (simp_all add: lit_def)

text \<open>
  Claim C9. For every number \<open>status\<close>, \<open>handleHttpErrors\<close> throws an \<open>Error\<close> and never
  completes normally. For each of the statuses 400, 401, 403, 404, 429, 500, 502, 503
  and 504 the message is the one the source lists for it; for every other status the
  message is \<open>Unexpected error:\<close> followed by the status as a string.
\<close>

theorem handleHttpErrors_throws:
  "(\<exists>m. handleHttpErrors fmt status = Throw (Error m))
   \<and> handleHttpErrors fmt (Num 400) =
       Throw (Error (lit ''Bad Request: Please check the information you provided.''))
   \<and> handleHttpErrors fmt (Num 401) =
       Throw (Error (lit ''Unauthorized: Please log in and try again.''))
   \<and> handleHttpErrors fmt (Num 403) =
       Throw (Error (lit ''Forbidden: You do not have permission to access this resource.''))
   \<and> handleHttpErrors fmt (Num 404) =
       Throw (Error (lit ''Not Found: No matching results were found. Please try a different search.''))
   \<and> handleHttpErrors fmt (Num 429) =
       Throw (Error (lit ''Too Many Requests: Please wait a moment before trying again.''))
   \<and> handleHttpErrors fmt (Num 500) =
       Throw (Error (lit ''Internal Server Error: Something went wrong on our end. Please try again later.''))
   \<and> handleHttpErrors fmt (Num 502) =
       Throw (Error (lit ''Bad Gateway: The server received an invalid response. Please try again later.''))
   \<and> handleHttpErrors fmt (Num 503) =
       Throw (Error (lit ''Service Unavailable: The server is currently unavailable. Please try again later.''))
   \<and> handleHttpErrors fmt (Num 504) =
       Throw (Error (lit ''Gateway Timeout: The server took too long to respond. Please try again later.''))
   \<and> (status \<notin> Num ` {400, 401, 403, 404, 429, 500, 502, 503, 504} \<longrightarrow>
        handleHttpErrors fmt status =
          Throw (Error (lit ''Unexpected error: '' @ Number_toString fmt status)))"
  unfolding handleHttpErrors_def by simp

text \<open>The status 418 is none of the nine: the default case prints it in decimal.\<close>

theorem handleHttpErrors_throws_witness:
  "Num 418 \<notin> Num ` {400, 401, 403, 404, 429, 500, 502, 503, 504}
   \<and> handleHttpErrors (\<lambda>r. []) (Num 418) = Throw (Error (lit ''Unexpected error: 418''))"
proof -
  have other: "Num 418 \<notin> Num ` {400, 401, 403, 404, 429, 500, 502, 503, 504}"
    by simp
  have "handleHttpErrors (\<lambda>r. []) (Num 418) =
          Throw (Error (lit ''Unexpected error: '' @ Number_toString (\<lambda>r. []) (Num 418)))"
    using handleHttpErrors_throws [of "\<lambda>r. []" "Num 418"] other by blast
  then show ?thesis
    using other by (simp add: Number_toString_def nat_to_dec.simps lit_simps)
qed

text \<open>
  Claim C8. For every pair of strings, \<open>validateInput\<close> returns \<open>null\<close> exactly when at
  least one of the two is non-empty, every code unit of the author is a letter
  \<open>a-z\<close>, \<open>A-Z\<close> or white space, and every code unit of the title is such a letter, a
  digit \<open>0-9\<close> or white space. Otherwise it returns the first message that applies, in
  the order: both empty, invalid author, invalid title.
\<close>

theorem validateInput_spec:
  "(validateInput author title = None \<longleftrightarrow>
      (author \<noteq> [] \<or> title \<noteq> [])
      \<and> (\<forall>c\<in>set author. is_lower c \<or> is_upper c \<or> is_space c)
      \<and> (\<forall>c\<in>set title. is_lower c \<or> is_upper c \<or> is_digit c \<or> is_space c))
   \<and> validateInput author title =
       (if author = [] \<and> title = [] then
          Some (lit ''Please enter either an author name, title, or both.'')
        else if \<exists>c\<in>set author. \<not> (is_lower c \<or> is_upper c \<or> is_space c) then
          Some (lit ''Please enter a valid author name with letters and spaces only.'')
        else if \<exists>c\<in>set title. \<not> (is_lower c \<or> is_upper c \<or> is_digit c \<or> is_space c) then
          Some (lit ''Please enter a valid title with letters, numbers, and spaces only.'')
        else None)"
  unfolding validateInput_def test_iff invalidAuthorPattern_def invalidTitlePattern_def
  by auto

text \<open>
  A valid pair, and a pair whose author and title are both invalid: the author's
  message comes first.
\<close>

theorem validateInput_spec_witness:
  "validateInput (lit ''Emily Dickinson'') (lit ''Sonnet 18'') = None
   \<and> validateInput (lit ''Emily-Dickinson'') (lit ''Sonnet #18'') =
       Some (lit ''Please enter a valid author name with letters and spaces only.'')"
  using validateInput_spec [of "lit ''Emily Dickinson''" "lit ''Sonnet 18''"]
    validateInput_spec [of "lit ''Emily-Dickinson''" "lit ''Sonnet #18''"]
  by (simp add: lit_simps is_lower_def is_upper_def is_digit_def is_space_def)

text \<open>
  Claim C10. When \<open>validateInput\<close> has returned \<open>null\<close> for the author and the title,
  \<open>createPoetryUrl\<close> takes one of its three branches and returns a URL string; it does
  not fall off its end and return \<open>undefined\<close>.
\<close>

theorem createPoetryUrl_defined:
  "validateInput author title = None \<Longrightarrow>
     createPoetryUrl author title =
       Some (if author \<noteq> [] \<and> title \<noteq> [] then
               BASE_URL @ lit ''/author,title/'' @ author @ lit '';'' @ title
             else if author \<noteq> [] then BASE_URL @ lit ''/author/'' @ author
             else BASE_URL @ lit ''/title/'' @ title)"
  by (auto simp: validateInput_def createPoetryUrl_def split: if_splits)

theorem createPoetryUrl_defined_witness:
  "validateInput [] (lit ''Ozymandias'') = None
   \<and> createPoetryUrl [] (lit ''Ozymandias'') = Some (lit ''https://poetrydb.org/title/Ozymandias'')"
proof -
  have valid: "validateInput [] (lit ''Ozymandias'') = None"
    by (simp add: validateInput_def test_def invalidTitlePattern_def lit_simps
        is_lower_def is_upper_def is_digit_def is_space_def)
  show ?thesis
    using valid createPoetryUrl_defined [OF valid]
    by (simp add: BASE_URL_def lit_simps)
qed

text \<open>
  \<open>fetchPoetry\<close> reaches \<open>createPoetryUrl\<close> only with a pair that \<open>validateInput\<close> has
  accepted, so the URL it fetches is never \<open>undefined\<close>, whatever the two fields hold.
\<close>

lemma fetchPoetry_url_defined: "fetchPoetry authorInput titleInput \<noteq> Fetch None"
  by (auto simp: fetchPoetry_def Let_def validateInput_def createPoetryUrl_def lit_simps
      split: if_splits)

section \<open>Properties of the elevator simulation\<close>

text \<open>
  Claim C5. For every list of (floor, direction) pairs the request queue builder
  returns an up-queue that holds exactly the distinct floors requested upwards, sorted
  ascending, and a down-queue that holds exactly the distinct floors requested
  downwards, sorted descending. It is a total function, so it never fails, and the
  empty list gives two empty queues.
\<close>

theorem build_queues_spec:
  "set (fst (build_queues requests)) = {f. (f, UP) \<in> set requests}
   \<and> distinct (fst (build_queues requests)) \<and> sorted (fst (build_queues requests))
   \<and> set (snd (build_queues requests)) = {f. (f, DOWN) \<in> set requests}
   \<and> distinct (snd (build_queues requests)) \<and> sorted (rev (snd (build_queues requests)))
   \<and> build_queues [] = ([], [])"
  by (force simp: build_queues_def)

text \<open>
  Claim C7. For the empty batch and any starting floor the simulation terminates with
  nothing serviced, the elevator \<open>IDLE\<close> at the starting floor and both queues empty.
\<close>

theorem empty_batch_idle:
  "schedule start [] =
     Finished \<lparr>currentFloor = start, currentDirection = IDLE, upQueue = [], downQueue = [],
       serviced = []\<rparr>"
  by (simp add: schedule_def build_queues_def initial_def run.simps step_def)

text \<open>
  The scheduler does not fail: it halts only in the terminal state, so every run ends
  \<open>IDLE\<close> with both queues empty, and every floor that was queued has been serviced.
\<close>

lemma step_Halt_iff:
  "step s = Halt \<longleftrightarrow> currentDirection s = IDLE \<and> upQueue s = [] \<and> downQueue s = []"
  by (cases "currentDirection s")
    (auto simp: step_def split: option.splits)

lemma run_terminal:
  "run s = Finished s' \<Longrightarrow>
     currentDirection s' = IDLE \<and> upQueue s' = [] \<and> downQueue s' = []"
proof (induction s rule: run.induct)
  case (1 s)
  show ?case
  proof (cases "step s")
    case (Next t)
    with 1 show ?thesis by (simp add: run.simps [of s])
  next
    case Halt
    with 1(2) have "s' = s" by (simp add: run.simps [of s])
    with Halt show ?thesis by (simp add: step_Halt_iff)
  qed
qed

lemma set_remove1_insert: "x \<in> set xs \<Longrightarrow> insert x (set (remove1 x xs)) = set xs"
  by (induction xs) auto

lemma step_floors:
  "step s = Next s' \<Longrightarrow>
     set (serviced s') \<union> set (upQueue s') \<union> set (downQueue s') =
     set (serviced s) \<union> set (upQueue s) \<union> set (downQueue s)"
proof (induction rule: step_cases)
  case here
  then show ?case
    using set_remove1_insert [of "currentFloor s" "upQueue s"]
      set_remove1_insert [of "currentFloor s" "downQueue s"]
    by (auto simp: service_here_def)
next
  case (up f)
  then show ?case
    using set_remove1_insert [of f "upQueue s"] target_up_in [of "currentFloor s" "upQueue s" f]
    by (auto simp: service_up_def)
next
  case (down f)
  then show ?case
    using set_remove1_insert [of f "downQueue s"]
      target_down_in [of "currentFloor s" "downQueue s" f]
    by (auto simp: service_down_def)
qed simp_all

lemma run_services_all:
  "run s = Finished s' \<Longrightarrow>
     set (serviced s') = set (serviced s) \<union> set (upQueue s) \<union> set (downQueue s)"
proof (induction s rule: run.induct)
  case (1 s)
  show ?case
  proof (cases "step s")
    case (Next t)
    with 1 have "set (serviced s') = set (serviced t) \<union> set (upQueue t) \<union> set (downQueue t)"
      by (simp add: run.simps [of s])
    with step_floors [OF Next] show ?thesis by simp
  next
    case Halt
    with 1(2) have "s' = s" by (simp add: run.simps [of s])
    with Halt show ?thesis by (simp add: step_Halt_iff)
  qed
qed

text \<open>
  What a moving elevator does next, by the state of the queue of its direction.
\<close>

lemma step_up_target:
  assumes "currentDirection s = MOVING_UP" "upQueue s \<noteq> []"
  obtains f where "step s = Next (service_here s) \<and> f = currentFloor s
      \<or> step s = Next (service_up f s)"
    and "f \<in> set (upQueue s)"
    and "\<forall>g\<in>set (upQueue s). currentFloor s \<le> g \<longrightarrow> currentFloor s \<le> f \<and> f \<le> g"
proof (cases "currentFloor s \<in> set (upQueue s) \<and> currentFloor s \<in> set (downQueue s)")
  case True
  then have "step s = Next (service_here s)" by (simp add: step_def)
  with True show ?thesis
    using that [of "currentFloor s"] by auto
next
  case tie: False
  from assms(2) obtain f where f: "target_up (currentFloor s) (upQueue s) = Some f"
    by (cases "target_up (currentFloor s) (upQueue s)") (simp_all add: target_up_None)
  have st: "step s = Next (service_up f s)"
    using f tie assms(1) by (auto simp: step_def)
  have "currentFloor s \<le> f \<and> f \<le> g" if "g \<in> set (upQueue s)" "currentFloor s \<le> g" for g
  proof -
    from that have "nearest_up (currentFloor s) (upQueue s) \<noteq> None"
      unfolding nearest_up_None by (intro notI) (auto simp: not_less [symmetric])
    then obtain h where h: "nearest_up (currentFloor s) (upQueue s) = Some h" by auto
    with f have "h = f" by (simp add: target_up_def)
    with nearest_up_Some [OF h] that show ?thesis by simp
  qed
  then have "\<forall>g\<in>set (upQueue s). currentFloor s \<le> g \<longrightarrow> currentFloor s \<le> f \<and> f \<le> g"
    by blast
  with st target_up_in [OF f] show ?thesis
    using that [of f] by blast
qed

lemma step_down_target:
  assumes "currentDirection s = MOVING_DOWN" "downQueue s \<noteq> []"
  obtains f where "step s = Next (service_here s) \<and> f = currentFloor s
      \<or> step s = Next (service_down f s)"
    and "f \<in> set (downQueue s)"
    and "\<forall>g\<in>set (downQueue s). g \<le> currentFloor s \<longrightarrow> f \<le> currentFloor s \<and> g \<le> f"
proof (cases "currentFloor s \<in> set (upQueue s) \<and> currentFloor s \<in> set (downQueue s)")
  case True
  then have "step s = Next (service_here s)" by (simp add: step_def)
  with True show ?thesis
    using that [of "currentFloor s"] by auto
next
  case tie: False
  from assms(2) obtain f where f: "target_down (currentFloor s) (downQueue s) = Some f"
    by (cases "target_down (currentFloor s) (downQueue s)") (simp_all add: target_down_None)
  have st: "step s = Next (service_down f s)"
    using f tie assms(1) by (auto simp: step_def)
  have "f \<le> currentFloor s \<and> g \<le> f" if "g \<in> set (downQueue s)" "g \<le> currentFloor s" for g
  proof -
    from that have "nearest_down (currentFloor s) (downQueue s) \<noteq> None"
      unfolding nearest_down_None by (intro notI) (auto simp: not_less [symmetric])
    then obtain h where h: "nearest_down (currentFloor s) (downQueue s) = Some h" by auto
    with f have "h = f" by (simp add: target_down_def)
    with nearest_down_Some [OF h] that show ?thesis by simp
  qed
  then have "\<forall>g\<in>set (downQueue s). g \<le> currentFloor s \<longrightarrow> f \<le> currentFloor s \<and> g \<le> f"
    by blast
  with st target_down_in [OF f] show ?thesis
    using that [of f] by blast
qed

lemma step_up_exhausted:
  "currentDirection s = MOVING_UP \<Longrightarrow> upQueue s = [] \<Longrightarrow>
     step s = Next (s\<lparr>currentDirection := if downQueue s \<noteq> [] then MOVING_DOWN else IDLE\<rparr>)"
  by (simp add: step_def target_up_def nearest_up_def)

lemma step_down_exhausted:
  "currentDirection s = MOVING_DOWN \<Longrightarrow> downQueue s = [] \<Longrightarrow>
     step s = Next (s\<lparr>currentDirection := if upQueue s \<noteq> [] then MOVING_UP else IDLE\<rparr>)"
  by (simp add: step_def target_down_def nearest_down_def)

text \<open>
  Claim C3. In every state, and so in every reachable one: while the queue of the
  current direction is non-empty the elevator keeps its direction and services a floor
  of that queue, and while that queue holds a floor reachable without reversing the
  floor serviced is the nearest such floor, so the elevator does not travel against its
  direction either. The direction changes only when that queue is exhausted: the
  elevator then reverses if the opposite queue is non-empty and goes idle otherwise.
\<close>

theorem no_unnecessary_reversal:
  "(currentDirection s = MOVING_UP \<and> upQueue s \<noteq> [] \<longrightarrow>
      (\<exists>s'. step s = Next s' \<and> currentDirection s' = MOVING_UP
         \<and> currentFloor s' \<in> set (upQueue s) \<and> serviced s' = serviced s @ [currentFloor s']
         \<and> (\<forall>g\<in>set (upQueue s). currentFloor s \<le> g \<longrightarrow>
               currentFloor s \<le> currentFloor s' \<and> currentFloor s' \<le> g)))
   \<and> (currentDirection s = MOVING_DOWN \<and> downQueue s \<noteq> [] \<longrightarrow>
      (\<exists>s'. step s = Next s' \<and> currentDirection s' = MOVING_DOWN
         \<and> currentFloor s' \<in> set (downQueue s) \<and> serviced s' = serviced s @ [currentFloor s']
         \<and> (\<forall>g\<in>set (downQueue s). g \<le> currentFloor s \<longrightarrow>
               currentFloor s' \<le> currentFloor s \<and> g \<le> currentFloor s')))
   \<and> (currentDirection s = MOVING_UP \<and> upQueue s = [] \<longrightarrow>
        step s = Next (s\<lparr>currentDirection := if downQueue s \<noteq> [] then MOVING_DOWN else IDLE\<rparr>))
   \<and> (currentDirection s = MOVING_DOWN \<and> downQueue s = [] \<longrightarrow>
        step s = Next (s\<lparr>currentDirection := if upQueue s \<noteq> [] then MOVING_UP else IDLE\<rparr>))"
proof (intro conjI impI; (elim conjE)?)
  assume up: "currentDirection s = MOVING_UP" "upQueue s \<noteq> []"
  then obtain f where
    f: "step s = Next (service_here s) \<and> f = currentFloor s \<or> step s = Next (service_up f s)"
      "f \<in> set (upQueue s)"
      "\<forall>g\<in>set (upQueue s). currentFloor s \<le> g \<longrightarrow> currentFloor s \<le> f \<and> f \<le> g"
    by (rule step_up_target)
  from f(1) show "\<exists>s'. step s = Next s' \<and> currentDirection s' = MOVING_UP
         \<and> currentFloor s' \<in> set (upQueue s) \<and> serviced s' = serviced s @ [currentFloor s']
         \<and> (\<forall>g\<in>set (upQueue s). currentFloor s \<le> g \<longrightarrow>
               currentFloor s \<le> currentFloor s' \<and> currentFloor s' \<le> g)"
  proof
    assume "step s = Next (service_here s) \<and> f = currentFloor s"
    with up(1) f(2,3) show ?thesis by (simp add: service_here_def)
  next
    assume "step s = Next (service_up f s)"
    with up(1) f(2,3) show ?thesis by (simp add: service_up_def)
  qed
next
  assume down: "currentDirection s = MOVING_DOWN" "downQueue s \<noteq> []"
  then obtain f where
    f: "step s = Next (service_here s) \<and> f = currentFloor s \<or> step s = Next (service_down f s)"
      "f \<in> set (downQueue s)"
      "\<forall>g\<in>set (downQueue s). g \<le> currentFloor s \<longrightarrow> f \<le> currentFloor s \<and> g \<le> f"
    by (rule step_down_target)
  from f(1) show "\<exists>s'. step s = Next s' \<and> currentDirection s' = MOVING_DOWN
         \<and> currentFloor s' \<in> set (downQueue s) \<and> serviced s' = serviced s @ [currentFloor s']
         \<and> (\<forall>g\<in>set (downQueue s). g \<le> currentFloor s \<longrightarrow>
               currentFloor s' \<le> currentFloor s \<and> g \<le> currentFloor s')"
  proof
    assume "step s = Next (service_here s) \<and> f = currentFloor s"
    with down(1) f(2,3) show ?thesis by (simp add: service_here_def)
  next
    assume "step s = Next (service_down f s)"
    with down(1) f(2,3) show ?thesis by (simp add: service_down_def)
  qed
next
  assume "currentDirection s = MOVING_UP" "upQueue s = []"
  then show "step s = Next (s\<lparr>currentDirection := if downQueue s \<noteq> [] then MOVING_DOWN else IDLE\<rparr>)"
    by (rule step_up_exhausted)
next
  assume "currentDirection s = MOVING_DOWN" "downQueue s = []"
  then show "step s = Next (s\<lparr>currentDirection := if upQueue s \<noteq> [] then MOVING_UP else IDLE\<rparr>)"
    by (rule step_down_exhausted)
qed

text \<open>
  At floor 8 going up, with the up-queue exhausted and floor 2 pending downwards, the
  elevator reverses; at floor 5 with floor 8 still ahead it goes on to floor 8.
\<close>

theorem no_unnecessary_reversal_witness:
  "step \<lparr>currentFloor = 8, currentDirection = MOVING_UP, upQueue = [], downQueue = [2],
         serviced = [5, 8]\<rparr> =
     Next \<lparr>currentFloor = 8, currentDirection = MOVING_DOWN, upQueue = [], downQueue = [2],
         serviced = [5, 8]\<rparr>
   \<and> (\<exists>s'. step \<lparr>currentFloor = 5, currentDirection = MOVING_UP, upQueue = [8],
               downQueue = [2], serviced = [5]\<rparr> = Next s'
         \<and> currentDirection s' = MOVING_UP \<and> currentFloor s' = 8 \<and> serviced s' = [5, 8])"
  using
    no_unnecessary_reversal [of "\<lparr>currentFloor = 8, currentDirection = MOVING_UP, upQueue = [],
      downQueue = [2], serviced = [5, 8]\<rparr>"]
    no_unnecessary_reversal [of "\<lparr>currentFloor = 5, currentDirection = MOVING_UP, upQueue = [8],
      downQueue = [2], serviced = [5]\<rparr>"]
  by auto

end
